theory Spec2Isabelle
  imports Main "HOL-Library.Word"
begin

unbundle bit_operations_syntax

section \<open>Machine types and constants of ws2812.c\<close>

type_synonym u8 = "8 word"
type_synonym u32 = "32 word"

definition NUM_PIXELS :: nat where
  "NUM_PIXELS = 100"

definition MODE_MAX :: int where
  "MODE_MAX = 6"

definition led_pattern_max :: int where
  "led_pattern_max = MODE_MAX"

section \<open>Pixel encoding\<close>

text \<open>
  \<^verbatim>\<open>return ((uint32_t) (g) << 8) | ((uint32_t) (r) << 16) | (uint32_t) (b);\<close>
\<close>

definition rgb_u32 :: "u8 \<Rightarrow> u8 \<Rightarrow> u8 \<Rightarrow> u32" where
  "rgb_u32 r g b = push_bit 8 (ucast g) OR push_bit 16 (ucast r) OR ucast b"

section \<open>The mode signal\<close>

text \<open>
  The three file-scope volatile variables. \<open>led_pattern\<close> is a C \<open>int\<close>; it is
  modelled as an unbounded integer, which agrees with the machine as long as the
  counter stays far from \<open>INT_MAX\<close>.
\<close>

record mode_state =
  led_pressed :: bool
  button_interrupt :: bool
  led_pattern :: int

text \<open>\<open>get_interrupted\<close> returns the flag and the state it leaves behind.\<close>

definition get_interrupted :: "mode_state \<Rightarrow> bool \<times> mode_state" where
  "get_interrupted s =
     (let ret = button_interrupt s
      in if ret then (ret, s\<lparr>button_interrupt := False\<rparr>) else (ret, s))"

text \<open>
  The edge handler. The \<open>gpio\<close> argument is not read. A C condition
  \<open>events & 0x04\<close> is true when the masked word is non-zero.
\<close>

definition gpio_callback :: "u32 \<Rightarrow> u32 \<Rightarrow> mode_state \<Rightarrow> mode_state" where
  "gpio_callback gpio events s =
     (if events AND 0x04 \<noteq> 0 then
        (if led_pressed s = False then s\<lparr>led_pressed := True\<rparr> else s)
      else if events AND 0x08 \<noteq> 0 then
        (if led_pressed s = True then
           (let p = led_pattern s + 1;
                p' = (if p = led_pattern_max then 0 else p)
            in s\<lparr>led_pattern := p', button_interrupt := True, led_pressed := False\<rparr>)
         else s)
      else s)"

text \<open>The state left by \<open>k\<close> consecutive polls, and a press edge followed by a release edge.\<close>

definition poll_n :: "nat \<Rightarrow> mode_state \<Rightarrow> mode_state" where
  "poll_n k s = ((\<lambda>t. snd (get_interrupted t)) ^^ k) s"

definition press_release :: "u32 \<Rightarrow> u32 \<Rightarrow> u32 \<Rightarrow> mode_state \<Rightarrow> mode_state" where
  "press_release gpio ep er s = gpio_callback gpio er (gpio_callback gpio ep s)"

section \<open>The pixel buffer in memory\<close>

text \<open>
  C performs no bounds check, so the buffer is modelled inside a flat memory of 32-bit
  cells addressed by their offset from the pointer \<open>array\<close>: a buffer of \<open>N\<close> cells
  owns offsets \<open>0..N-1\<close>, and larger offsets are whatever the allocator placed behind it.
  Every store is recorded in \<open>written\<close> (most recent first), so that the footprint of a
  routine can be stated.
\<close>

record heap =
  cells :: "nat \<Rightarrow> u32"
  written :: "nat list"

definition store :: "nat \<Rightarrow> u32 \<Rightarrow> heap \<Rightarrow> heap" where
  "store a v h = h\<lparr>cells := (cells h)(a := v), written := a # written h\<rparr>"

text \<open>
  \<^verbatim>\<open>for (size_t idx = i; idx < n; idx++) body\<close>. The counter is a \<open>size_t\<close>; it
  never exceeds \<open>n\<close>, so it cannot wrap and is modelled as a natural number.
\<close>

function for_loop :: "nat \<Rightarrow> nat \<Rightarrow> (nat \<Rightarrow> 's \<Rightarrow> 's) \<Rightarrow> 's \<Rightarrow> 's" where
  "for_loop idx n body s = (if idx < n then for_loop (idx + 1) n body (body idx s) else s)"
  by pat_completeness auto
termination
  by (relation "measure (\<lambda>(idx, n, body, s). n - idx)") auto

declare for_loop.simps [simp del]

text \<open>
  \<^verbatim>\<open>*array++ = colour;\<close> for each index: the state of the loop is the moving
  pointer and the memory.
\<close>

definition led_array_set :: "nat \<Rightarrow> u32 \<Rightarrow> heap \<Rightarrow> heap" where
  "led_array_set array_size colour h =
     snd (for_loop 0 array_size (\<lambda>idx (array, m). (array + 1, store array colour m)) (0, h))"

text \<open>
  \<open>led_array_write\<close> pushes each cell, shifted left by 8, to the PIO FIFO; the words
  pushed are returned in order. Memory is not changed.
\<close>

definition led_array_write :: "nat \<Rightarrow> heap \<Rightarrow> u32 list" where
  "led_array_write array_size h =
     snd (for_loop 0 array_size
            (\<lambda>idx (array, out). (array + 1, out @ [push_bit 8 (cells h array)])) (0, []))"

definition clear_leds :: "nat \<Rightarrow> heap \<Rightarrow> heap" where
  "clear_leds array_size h = led_array_set array_size 0 h"

section \<open>The polling contract shared by the pattern routines\<close>

text \<open>
  Every routine is \<^verbatim>\<open>while (1) { if (get_interrupted()) break; frame; }\<close>. The handler
  runs asynchronously, so a run of the loop is driven by a schedule: one list of edge
  events per iteration, delivered before that iteration polls. The loop returns when a
  poll succeeds; when the schedule ends first it is still running. \<open>sleep_ms\<close> changes
  no program state and is left out.
\<close>

definition MODE_PIN :: u32 where
  "MODE_PIN = 16"

datatype 's outcome = Returned mode_state 's | Running mode_state 's

fun pattern_loop :: "('s \<Rightarrow> 's) \<Rightarrow> u32 list list \<Rightarrow> mode_state \<Rightarrow> 's \<Rightarrow> 's outcome" where
  "pattern_loop frame [] ms st = Running ms st"
| "pattern_loop frame (evs # rest) ms st =
     (let ms1 = fold (gpio_callback MODE_PIN) evs ms;
          (ret, ms2) = get_interrupted ms1
      in if ret then Returned ms2 st else pattern_loop frame rest ms2 (frame st))"

section \<open>fade_three\<close>

text \<open>
  \<open>wait_ms\<close> and \<open>step_count\<close> are \<open>uint16_t\<close>; the arithmetic is done in \<open>int\<close> after
  promotion and fits. For a period below 128 the source divides by a zero \<open>wait_ms\<close>;
  the scheduler only passes 3000.
\<close>

definition fade_wait_ms :: "nat \<Rightarrow> nat" where
  "fade_wait_ms period = (((period * 10) div 256 + 5) div 10) mod 65536"

definition fade_step_count :: "nat \<Rightarrow> nat" where
  "fade_step_count period = (period div fade_wait_ms period) mod 65536"

record fade_state =
  red :: u8
  grn :: u8
  blu :: u8
  d_red :: int
  d_grn :: int
  d_blu :: int
  step_no :: nat
  f_array :: heap

definition fade_init :: "u8 \<Rightarrow> u8 \<Rightarrow> u8 \<Rightarrow> int \<Rightarrow> heap \<Rightarrow> fade_state" where
  "fade_init r g b adj h =
     \<lparr>red = r, grn = g, blu = b,
      d_red = (if r > 127 then - adj else adj),
      d_grn = (if g > 127 then - adj else adj),
      d_blu = (if b > 127 then - adj else adj),
      step_no = 0, f_array = h\<rparr>"

text \<open>
  The render loop: \<open>ap\<close> starts at \<open>array\<close>, three cells are stored through it and it
  moves on by three, once for each \<open>idx < array_size\<close>.
\<close>

definition fade_draw :: "nat \<Rightarrow> u8 \<Rightarrow> u8 \<Rightarrow> u8 \<Rightarrow> heap \<Rightarrow> heap" where
  "fade_draw array_size r g b h =
     snd (for_loop 0 array_size
            (\<lambda>idx (ap, m).
               (ap + 3,
                store (ap + 2) (rgb_u32 0 0 (drop_bit 3 b))
                  (store (ap + 1) (rgb_u32 0 (drop_bit 3 g) 0)
                     (store ap (rgb_u32 (drop_bit 3 r) 0 0) m))))
            (0, h))"

text \<open>
  One iteration after the poll. \<open>red += d_red\<close> adds an \<open>int\<close> to a \<open>uint8_t\<close> and
  stores the sum back into eight bits.
\<close>

definition fade_frame :: "nat \<Rightarrow> nat \<Rightarrow> fade_state \<Rightarrow> fade_state" where
  "fade_frame array_size step_count st =
     (let m = fade_draw array_size (red st) (grn st) (blu st) (f_array st);
          r = red st + word_of_int (d_red st);
          g = grn st + word_of_int (d_grn st);
          b = blu st + word_of_int (d_blu st);
          dr = (if r = 255 then - 1 else if r = 0 then 1 else d_red st);
          dg = (if g = 255 then - 1 else if g = 0 then 1 else d_grn st);
          db = (if b = 255 then - 1 else if b = 0 then 1 else d_blu st);
          n = (step_no st + 1) mod 65536
      in \<lparr>red = r, grn = g, blu = b, d_red = dr, d_grn = dg, d_blu = db,
          step_no = (if n \<ge> step_count then 0 else n), f_array = m\<rparr>)"

definition fade_three ::
  "nat \<Rightarrow> u8 \<Rightarrow> u8 \<Rightarrow> u8 \<Rightarrow> nat \<Rightarrow> int \<Rightarrow> u32 list list \<Rightarrow> mode_state \<Rightarrow> heap \<Rightarrow> fade_state outcome" where
  "fade_three array_size r g b period adj sched ms h =
     pattern_loop (fade_frame array_size (fade_step_count period)) sched ms (fade_init r g b adj h)"

section \<open>step_three\<close>

record step_state =
  clr_index :: int
  clr_value :: u8
  s_array :: heap

definition step_init :: "heap \<Rightarrow> step_state" where
  "step_init h = \<lparr>clr_index = 0, clr_value = 0, s_array = h\<rparr>"

definition step_frame :: "nat \<Rightarrow> step_state \<Rightarrow> step_state" where
  "step_frame array_size st =
     (let v = clr_value st;
          m = (if clr_index st = 1 then
                 led_array_set array_size (rgb_u32 0 (drop_bit 3 v) 0) (s_array st)
               else if clr_index st = 2 then
                 led_array_set array_size (rgb_u32 0 0 (drop_bit 3 v)) (s_array st)
               else
                 led_array_set array_size (rgb_u32 (drop_bit 3 v) 0 0) (s_array st));
          v1 = v + 1
      in if v1 = 255 then
           (let i1 = clr_index st + 1
            in \<lparr>clr_index = (if i1 > 2 then 0 else i1), clr_value = 0, s_array = m\<rparr>)
         else \<lparr>clr_index = clr_index st, clr_value = v1, s_array = m\<rparr>)"

definition step_three :: "nat \<Rightarrow> u32 list list \<Rightarrow> mode_state \<Rightarrow> heap \<Rightarrow> step_state outcome" where
  "step_three array_size sched ms h = pattern_loop (step_frame array_size) sched ms (step_init h)"

section \<open>walk_three\<close>

definition walk_red :: u32 where
  "walk_red = rgb_u32 (drop_bit 3 255) 0 0"

definition walk_grn :: u32 where
  "walk_grn = rgb_u32 0 (drop_bit 3 255) 0"

definition walk_blu :: u32 where
  "walk_blu = rgb_u32 0 0 (drop_bit 3 255)"

text \<open>
  \<open>clrs\<close> is a local array of three words, indexed by 0, 1, 2 and \<open>i % 3\<close> only; it
  is modelled as a function from the index. It is not initialised before the loop, so
  its first contents are a parameter; all three entries are assigned before any is read.
\<close>

record walk_state =
  step :: u8
  clrs :: "nat \<Rightarrow> u32"
  w_array :: heap

definition walk_init :: "(nat \<Rightarrow> u32) \<Rightarrow> heap \<Rightarrow> walk_state" where
  "walk_init c h = \<lparr>step = 0, clrs = c, w_array = h\<rparr>"

definition walk_frame :: "nat \<Rightarrow> walk_state \<Rightarrow> walk_state" where
  "walk_frame array_size st =
     (let (c, s) =
            (if step st = 0 then ((clrs st)(0 := walk_red, 1 := walk_grn, 2 := walk_blu), 1)
             else if step st = 1 then ((clrs st)(2 := walk_red, 0 := walk_grn, 1 := walk_blu), 2)
             else ((clrs st)(1 := walk_red, 2 := walk_grn, 0 := walk_blu), 0));
          m = for_loop 0 array_size (\<lambda>i m. store i (c (i mod 3)) m) (w_array st)
      in \<lparr>step = s, clrs = c, w_array = m\<rparr>)"

definition walk_three :: "nat \<Rightarrow> (nat \<Rightarrow> u32) \<Rightarrow> u32 list list \<Rightarrow> mode_state \<Rightarrow> heap \<Rightarrow> walk_state outcome" where
  "walk_three array_size c sched ms h = pattern_loop (walk_frame array_size) sched ms (walk_init c h)"

section \<open>chase_colour\<close>

text \<open>
  \<open>clr_pos\<close> and \<open>clr_dir\<close> are C \<open>int\<close>s, modelled as integers; \<open>array_size\<close> and
  \<open>idx\<close> are \<open>size_t\<close> (32 bits on the target). Comparing the two converts the \<open>int\<close>
  to \<open>size_t\<close>, which is written out as \<open>size_t_of_int\<close>. The integer model agrees with
  the machine while \<open>clr_pos + 1\<close> does not exceed \<open>INT_MAX\<close>.
\<close>

definition size_t_of_int :: "int \<Rightarrow> nat" where
  "size_t_of_int i = nat (i mod 2 ^ 32)"

definition INT_MAX :: nat where
  "INT_MAX = 2147483647"

record chase_state =
  clr_pos :: int
  clr_id :: char
  clr_dir :: int
  c_array :: heap

definition chase_init :: "nat \<Rightarrow> heap \<Rightarrow> chase_state" where
  "chase_init array_size h =
     \<lparr>clr_pos = 0, clr_id = CHR ''r'', clr_dir = 1, c_array = clear_leds array_size h\<rparr>"

definition chase_colours :: "char \<Rightarrow> bool \<Rightarrow> u32 \<times> u32" where
  "chase_colours c bg_on =
     (if c = CHR ''r'' then (0x0f0000, if bg_on then 0x000201 else 0)
      else if c = CHR ''g'' then (0x000f00, if bg_on then 0x010002 else 0)
      else (0x00000f, if bg_on then 0x020100 else 0))"

definition chase_next_id :: "char \<Rightarrow> char" where
  "chase_next_id c =
     (if c = CHR ''g'' then CHR ''b'' else if c = CHR ''b'' then CHR ''r'' else CHR ''g'')"

definition chase_draw :: "nat \<Rightarrow> int \<Rightarrow> u32 \<Rightarrow> u32 \<Rightarrow> heap \<Rightarrow> heap" where
  "chase_draw array_size pos clr_fg clr_bg h =
     for_loop 0 array_size
       (\<lambda>idx m. if idx = size_t_of_int pos then store idx clr_fg m else store idx clr_bg m) h"

definition chase_frame :: "nat \<Rightarrow> bool \<Rightarrow> chase_state \<Rightarrow> chase_state" where
  "chase_frame array_size bg_on st =
     (let (clr_fg, clr_bg) = chase_colours (clr_id st) bg_on;
          m = chase_draw array_size (clr_pos st) clr_fg clr_bg (c_array st)
      in if clr_dir st = 1 then
           (let p = clr_pos st + 1
            in if size_t_of_int p = array_size
               then \<lparr>clr_pos = p - 1, clr_id = clr_id st, clr_dir = - 1, c_array = m\<rparr>
               else \<lparr>clr_pos = p, clr_id = clr_id st, clr_dir = clr_dir st, c_array = m\<rparr>)
         else if clr_dir st = - 1 then
           (let p = clr_pos st - 1
            in if p < 0
               then \<lparr>clr_pos = 0, clr_id = chase_next_id (clr_id st), clr_dir = 1, c_array = m\<rparr>
               else \<lparr>clr_pos = p, clr_id = clr_id st, clr_dir = clr_dir st, c_array = m\<rparr>)
         else \<lparr>clr_pos = clr_pos st, clr_id = clr_id st, clr_dir = clr_dir st, c_array = m\<rparr>)"

definition chase_colour :: "nat \<Rightarrow> bool \<Rightarrow> u32 list list \<Rightarrow> mode_state \<Rightarrow> heap \<Rightarrow> chase_state outcome" where
  "chase_colour array_size bg_on sched ms h =
     pattern_loop (chase_frame array_size bg_on) sched ms (chase_init array_size h)"

section \<open>The scheduler's dispatch\<close>

text \<open>The \<open>switch (led_pattern)\<close> of \<open>main\<close>: which routine is called, with which arguments.\<close>

datatype pattern_call =
    Walk nat nat
  | Fade nat u8 u8 u8 nat int
  | Chase nat nat bool

definition dispatch :: "int \<Rightarrow> pattern_call option" where
  "dispatch mode =
     (if mode = 0 then Some (Walk NUM_PIXELS 100)
      else if mode = 1 then Some (Fade NUM_PIXELS 255 0 127 3000 1)
      else if mode = 2 then Some (Walk NUM_PIXELS 200)
      else if mode = 3 then Some (Fade NUM_PIXELS 255 0 127 3000 2)
      else if mode = 4 then Some (Chase NUM_PIXELS 100 False)
      else if mode = 5 then Some (Chase NUM_PIXELS 100 True)
      else None)"

section \<open>Closed forms used in the proofs\<close>

text \<open>
  \<open>painted n f h\<close> is the memory after cells \<open>0..n-1\<close> have been stored in ascending
  order with the values \<open>f 0, \<dots>, f (n-1)\<close>: what each render loop leaves behind.
\<close>

definition painted :: "nat \<Rightarrow> (nat \<Rightarrow> u32) \<Rightarrow> heap \<Rightarrow> heap" where
  "painted n f h = \<lparr>cells = (\<lambda>i. if i < n then f i else cells h i), written = rev [0..<n] @ written h\<rparr>"

text \<open>
  The value the render loop of \<open>fade_three\<close> stores at offset \<open>i\<close>, the movement of one
  channel and its direction in one frame of \<open>fade_three\<close>, and the colour
  \<open>step_three\<close> fills the buffer with in a phase.
\<close>

definition fade_cell :: "u8 \<Rightarrow> u8 \<Rightarrow> u8 \<Rightarrow> nat \<Rightarrow> u32" where
  "fade_cell r g b i =
     (if i mod 3 = 0 then rgb_u32 (drop_bit 3 r) 0 0
      else if i mod 3 = 1 then rgb_u32 0 (drop_bit 3 g) 0
      else rgb_u32 0 0 (drop_bit 3 b))"

definition fade_channel :: "u8 \<times> int \<Rightarrow> u8 \<times> int" where
  "fade_channel p =
     (let v = fst p + word_of_int (snd p)
      in (v, if v = 255 then - 1 else if v = 0 then 1 else snd p))"

definition step_colour :: "nat \<Rightarrow> u8 \<Rightarrow> u32" where
  "step_colour phase v =
     (if phase = 0 then rgb_u32 (drop_bit 3 v) 0 0
      else if phase = 1 then rgb_u32 0 (drop_bit 3 v) 0
      else rgb_u32 0 0 (drop_bit 3 v))"

text \<open>
  A channel is heading inward when its direction is a unit step that points away from
  the bound it stands on: the invariant of the fade with step 1.
\<close>

definition inward :: "u8 \<times> int \<Rightarrow> bool" where
  "inward p \<longleftrightarrow> (snd p = 1 \<or> snd p = - 1) \<and> (fst p = 255 \<longrightarrow> snd p = - 1) \<and> (fst p = 0 \<longrightarrow> snd p = 1)"

text \<open>
  The position and the direction of \<open>chase_colour\<close> at the start of frame \<open>k\<close>: a round
  trip takes \<open>2 * n\<close> frames, \<open>n\<close> upwards and \<open>n\<close> downwards, each end being shown
  twice.
\<close>

definition chase_pos_at :: "nat \<Rightarrow> nat \<Rightarrow> nat" where
  "chase_pos_at n k = (let r = k mod (2 * n) in if r < n then r else 2 * n - 1 - r)"

definition chase_dir_at :: "nat \<Rightarrow> nat \<Rightarrow> int" where
  "chase_dir_at n k = (if k mod (2 * n) < n then 1 else - 1)"

text \<open>
  A memory with every cell zero and no store recorded, for concrete runs.
\<close>

definition blank_heap :: heap where
  "blank_heap = \<lparr>cells = (\<lambda>_. 0), written = []\<rparr>"

text \<open>
  What the specification describes for the fade: the buffer cut into three consecutive
  thirds, the first red only, the second green only, the last blue only. It is compared
  with the render loop of \<open>fade_three\<close> below.
\<close>

definition fade_thirds_spec :: "nat \<Rightarrow> u8 \<Rightarrow> u8 \<Rightarrow> u8 \<Rightarrow> nat \<Rightarrow> u32" where
  "fade_thirds_spec n r g b i =
     (if i < n div 3 then rgb_u32 (drop_bit 3 r) 0 0
      else if i < 2 * (n div 3) then rgb_u32 0 (drop_bit 3 g) 0
      else rgb_u32 0 0 (drop_bit 3 b))"

section \<open>Pixel encoding: the channel order\<close>

text \<open>
  Claim C4, as stated, puts green in the most significant channel byte. In the source the
  red operand is the one shifted by 16: pure red is encoded as \<open>0xFF0000\<close> and its top
  channel byte is the red intensity, not the green one.
\<close>

theorem rgb_u32_order_counterexample:
  "rgb_u32 255 0 0 = 0xFF0000 \<and> rgb_u32 0 255 0 = 0x00FF00 \<and>
   (ucast (drop_bit 16 (rgb_u32 255 0 0)) :: u8) = 255 \<and>
   (ucast (drop_bit 16 (rgb_u32 255 0 0)) :: u8) \<noteq> 0"
  by (simp add: rgb_u32_def)

text \<open>
  Claim C4, amended: \<open>rgb_u32\<close> maps the intensities \<open>r\<close>, \<open>g\<close>, \<open>b\<close> to one 24-bit
  word with red in the most significant of the three channel bytes, green in the middle
  one and blue in the least significant one; the bits above the 24th are zero.
\<close>

theorem rgb_u32_layout:
  "ucast (drop_bit 16 (rgb_u32 r g b)) = r \<and>
   ucast (drop_bit 8 (rgb_u32 r g b)) = g \<and>
   ucast (rgb_u32 r g b) = b \<and>
   drop_bit 24 (rgb_u32 r g b) = 0 \<and>
   rgb_u32 r g b < 2 ^ 24"
proof -
  have 1: "ucast (drop_bit 16 (rgb_u32 r g b)) = r"
    unfolding rgb_u32_def by (rule bit_word_eqI) (auto simp: bit_simps dest: bit_imp_le_length)
  have 2: "ucast (drop_bit 8 (rgb_u32 r g b)) = g"
    unfolding rgb_u32_def by (rule bit_word_eqI) (auto simp: bit_simps dest: bit_imp_le_length)
  have 3: "ucast (rgb_u32 r g b) = b"
    unfolding rgb_u32_def by (rule bit_word_eqI) (auto simp: bit_simps dest: bit_imp_le_length)
  have 4: "drop_bit 24 (rgb_u32 r g b) = 0"
    unfolding rgb_u32_def by (rule bit_word_eqI) (auto simp: bit_simps dest: bit_imp_le_length)
  have "take_bit 24 (rgb_u32 r g b) = rgb_u32 r g b"
    unfolding rgb_u32_def by (rule bit_word_eqI) (auto simp: bit_simps dest: bit_imp_le_length)
  then have "unat (rgb_u32 r g b) = take_bit 24 (unat (rgb_u32 r g b))"
    by (metis unsigned_take_bit_eq)
  then have "unat (rgb_u32 r g b) < 2 ^ 24"
    by (metis take_bit_nat_less_exp)
  then have 5: "rgb_u32 r g b < 2 ^ 24"
    by (simp add: word_less_nat_alt)
  from 1 2 3 4 5 show ?thesis by simp
qed

section \<open>The mode signal\<close>

lemma poll_n_fields:
  "led_pattern (poll_n k s) = led_pattern s \<and> led_pressed (poll_n k s) = led_pressed s"
  by (induction k) (simp_all add: poll_n_def get_interrupted_def Let_def)

lemma press_release_effect:
  assumes "ep AND 0x04 \<noteq> 0" and "er AND 0x04 = 0" and "er AND 0x08 \<noteq> 0"
  shows "press_release gpio ep er s =
     s\<lparr>led_pattern := (if led_pattern s + 1 = MODE_MAX then 0 else led_pattern s + 1),
       button_interrupt := True, led_pressed := False\<rparr>"
  using assms by (simp add: press_release_def gpio_callback_def led_pattern_max_def Let_def)

lemma press_release_pattern:
  assumes "ep AND 0x04 \<noteq> 0" and "er AND 0x04 = 0" and "er AND 0x08 \<noteq> 0"
    and "0 \<le> led_pattern s" and "led_pattern s < MODE_MAX"
  shows "led_pattern (press_release gpio ep er s) = (led_pattern s + 1) mod MODE_MAX"
  using assms(4,5) unfolding press_release_effect [OF assms(1,2,3)] MODE_MAX_def
  by (auto simp: mod_pos_pos_trivial)

lemma press_release_iterated:
  assumes "ep AND 0x04 \<noteq> 0" and "er AND 0x04 = 0" and "er AND 0x08 \<noteq> 0"
    and "0 \<le> led_pattern s" and "led_pattern s < MODE_MAX"
  shows "led_pattern ((press_release gpio ep er ^^ k) s) = (led_pattern s + int k) mod MODE_MAX"
proof (induction k)
  case 0
  from assms(4,5) show ?case by (simp add: MODE_MAX_def)
next
  case (Suc k)
  let ?t = "(press_release gpio ep er ^^ k) s"
  have range: "0 \<le> led_pattern ?t" "led_pattern ?t < MODE_MAX"
    by (simp_all add: Suc.IH MODE_MAX_def)
  have "led_pattern ((press_release gpio ep er ^^ Suc k) s) = (led_pattern ?t + 1) mod MODE_MAX"
    using press_release_pattern [OF assms(1,2,3) range] by simp
  also have "\<dots> = (led_pattern s + int (Suc k)) mod MODE_MAX"
    by (simp add: Suc.IH mod_simps add.commute add.left_commute)
  finally show ?case .
qed

lemma release_without_press:
  "\<not> led_pressed s \<Longrightarrow> er AND 0x04 = 0 \<Longrightarrow> gpio_callback gpio er s = s"
  by (simp add: gpio_callback_def)

text \<open>
  Claim C7. A press edge has bit \<open>0x04\<close> set in \<open>events\<close>; a release edge has bit \<open>0x08\<close>
  set and bit \<open>0x04\<close> clear. From every mode state whose counter lies in
  \<open>[0, MODE_MAX)\<close>, whatever the two flags are and after any number \<open>k\<close> of polls, a press
  edge followed by a release edge leaves \<open>button_interrupt\<close> set, \<open>led_pressed\<close> clear and
  the counter at its old value plus one modulo \<open>MODE_MAX\<close>; after \<open>MODE_MAX\<close> such pairs
  the counter is back at its starting value.
\<close>

theorem press_release_advances:
  assumes "ep AND 0x04 \<noteq> 0" and "er AND 0x04 = 0" and "er AND 0x08 \<noteq> 0"
    and "0 \<le> led_pattern s" and "led_pattern s < MODE_MAX"
  shows "button_interrupt (press_release gpio ep er (poll_n k s)) \<and>
         \<not> led_pressed (press_release gpio ep er (poll_n k s)) \<and>
         led_pattern (press_release gpio ep er (poll_n k s)) = (led_pattern s + 1) mod MODE_MAX \<and>
         led_pattern ((press_release gpio ep er ^^ nat MODE_MAX) s) = led_pattern s"
proof -
  have a: "button_interrupt (press_release gpio ep er (poll_n k s))"
    and b: "\<not> led_pressed (press_release gpio ep er (poll_n k s))"
    by (simp_all add: press_release_effect [OF assms(1,2,3)])
  have c: "led_pattern (press_release gpio ep er (poll_n k s)) = (led_pattern s + 1) mod MODE_MAX"
    using press_release_pattern [OF assms(1,2,3), of "poll_n k s" gpio] assms(4,5)
    by (simp add: poll_n_fields)
  have "led_pattern ((press_release gpio ep er ^^ nat MODE_MAX) s) = (led_pattern s + MODE_MAX) mod MODE_MAX"
    using press_release_iterated [OF assms, where gpio = gpio and k = "nat MODE_MAX"]
    by (simp add: MODE_MAX_def)
  also have "\<dots> = led_pattern s"
    using assms(4,5) by (simp add: MODE_MAX_def)
  finally show ?thesis using a b c by simp
qed

theorem press_release_advances_witness:
  "(0x04 :: u32) AND 0x04 \<noteq> 0 \<and> (0x08 :: u32) AND 0x04 = 0 \<and> (0x08 :: u32) AND 0x08 \<noteq> 0 \<and>
   button_interrupt (press_release 16 0x04 0x08
     (poll_n 2 \<lparr>led_pressed = False, button_interrupt = True, led_pattern = 5\<rparr>)) \<and>
   led_pattern (press_release 16 0x04 0x08
     (poll_n 2 \<lparr>led_pressed = False, button_interrupt = True, led_pattern = 5\<rparr>)) = 0 \<and>
   led_pattern ((press_release 16 0x04 0x08 ^^ 6)
     \<lparr>led_pressed = False, button_interrupt = True, led_pattern = 5\<rparr>) = 5"
  using press_release_advances [of "0x04" "0x08"
      "\<lparr>led_pressed = False, button_interrupt = True, led_pattern = 5\<rparr>" 16 2]
  by (simp add: MODE_MAX_def)

text \<open>
  Claim C8. \<open>get_interrupted\<close> returns the value of \<open>button_interrupt\<close> and clears the flag
  exactly when it was set (otherwise the state is untouched); a second call right after
  it returns false. So a completed press-release pair is reported once: true, then false.
\<close>

theorem get_interrupted_poll_and_clear:
  "fst (get_interrupted s) = button_interrupt s \<and>
   snd (get_interrupted s) = (if button_interrupt s then s\<lparr>button_interrupt := False\<rparr> else s) \<and>
   fst (get_interrupted (snd (get_interrupted s))) = False"
  by (simp add: get_interrupted_def Let_def)

theorem get_interrupted_poll_and_clear_witness:
  "fst (get_interrupted \<lparr>led_pressed = False, button_interrupt = True, led_pattern = 1\<rparr>) = True \<and>
   fst (get_interrupted (snd (get_interrupted
     \<lparr>led_pressed = False, button_interrupt = True, led_pattern = 1\<rparr>))) = False"
proof -
  let ?s = "\<lparr>led_pressed = False, button_interrupt = True, led_pattern = 1\<rparr>"
  note t = get_interrupted_poll_and_clear [of ?s]
  from t have a: "fst (get_interrupted ?s) = button_interrupt ?s"
    by (rule conjunct1)
  from t have c: "fst (get_interrupted (snd (get_interrupted ?s))) = False"
    by (elim conjE)
  from a c show ?thesis by simp
qed

section \<open>The polling loop\<close>

text \<open>
  With no edge delivered and the flag clear the loop keeps rendering: after \<open>k\<close>
  iterations it is still running, in the state \<open>k\<close> frames produce. A set flag at the
  poll ends it without rendering another frame.
\<close>

lemma pattern_loop_idle:
  "\<not> button_interrupt ms \<Longrightarrow> pattern_loop frame (replicate k []) ms st = Running ms ((frame ^^ k) st)"
proof (induction k arbitrary: st)
  case 0
  show ?case by simp
next
  case (Suc k)
  then show ?case
    by (simp add: get_interrupted_def Let_def funpow_swap1)
qed

lemma pattern_loop_interrupted:
  "button_interrupt (fold (gpio_callback MODE_PIN) evs ms) \<Longrightarrow>
   pattern_loop frame (evs # rest) ms st = Returned ((fold (gpio_callback MODE_PIN) evs ms)\<lparr>button_interrupt := False\<rparr>) st"
  by (simp add: get_interrupted_def Let_def)

section \<open>Loops over the buffer\<close>

lemma for_loop_done: "n \<le> idx \<Longrightarrow> for_loop idx n body s = s"
  by (subst for_loop.simps) simp

lemma for_loop_split:
  "idx \<le> k \<Longrightarrow> k \<le> n \<Longrightarrow> for_loop idx n body s = for_loop k n body (for_loop idx k body s)"
proof (induction idx k body s rule: for_loop.induct)
  case (1 idx k body s)
  show ?case
  proof (cases "idx < k")
    case True
    with 1 have "for_loop (idx + 1) n body (body idx s) = for_loop k n body (for_loop (idx + 1) k body (body idx s))"
      by simp
    with True 1(3) show ?thesis
      by (subst for_loop.simps, subst (3) for_loop.simps) simp
  next
    case False
    with 1(2) have "idx = k" by simp
    then show ?thesis by (simp add: for_loop_done)
  qed
qed

lemma for_loop_Suc: "for_loop 0 (Suc n) body s = body n (for_loop 0 n body s)"
proof -
  have "for_loop 0 (Suc n) body s = for_loop n (Suc n) body (for_loop 0 n body s)"
    by (rule for_loop_split) simp_all
  also have "\<dots> = body n (for_loop 0 n body s)"
    by (subst for_loop.simps) (simp add: for_loop_done)
  finally show ?thesis .
qed

lemma for_loop_0: "for_loop 0 0 body s = s"
  by (simp add: for_loop_done)

lemma painted_0: "painted 0 f h = h"
  by (simp add: painted_def)

lemma store_painted: "store n (f n) (painted n f h) = painted (Suc n) f h"
  by (auto simp: store_def painted_def fun_eq_iff)

lemma painted_cells: "cells (painted n f h) i = (if i < n then f i else cells h i)"
  by (simp add: painted_def)

lemma painted_written: "set (written (painted n f h)) = {0..<n} \<union> set (written h)"
  by (simp add: painted_def)

lemma led_array_set_loop:
  "for_loop 0 n (\<lambda>idx (array, m). (array + 1, store array colour m)) (0, h) = (n, painted n (\<lambda>_. colour) h)"
proof (induction n)
  case 0
  show ?case by (simp add: for_loop_0 painted_0)
next
  case (Suc n)
  show ?case
    unfolding for_loop_Suc Suc
    using store_painted [of n "\<lambda>_. colour" h]
    by simp
qed

lemma led_array_set_painted: "led_array_set n colour h = painted n (\<lambda>_. colour) h"
  unfolding led_array_set_def led_array_set_loop by simp

lemma fade_draw_loop:
  "for_loop 0 n
     (\<lambda>idx (ap, m).
        (ap + 3,
         store (ap + 2) (rgb_u32 0 0 (drop_bit 3 b))
           (store (ap + 1) (rgb_u32 0 (drop_bit 3 g) 0)
              (store ap (rgb_u32 (drop_bit 3 r) 0 0) m))))
     (0, h) = (3 * n, painted (3 * n) (fade_cell r g b) h)"
proof (induction n)
  case 0
  show ?case by (simp add: for_loop_0 painted_0)
next
  case (Suc n)
  have c0: "rgb_u32 (drop_bit 3 r) 0 0 = fade_cell r g b (3 * n)"
    and c1: "rgb_u32 0 (drop_bit 3 g) 0 = fade_cell r g b (Suc (3 * n))"
    and c2: "rgb_u32 0 0 (drop_bit 3 b) = fade_cell r g b (Suc (Suc (3 * n)))"
    by (simp_all add: fade_cell_def mod_Suc)
  let ?F = "fade_cell r g b" and ?ap = "3 * n"
  have p1: "store ?ap (rgb_u32 (drop_bit 3 r) 0 0) (painted ?ap ?F h) = painted (?ap + 1) ?F h"
    using store_painted [of ?ap ?F h] c0 by simp
  have p2: "store (?ap + 1) (rgb_u32 0 (drop_bit 3 g) 0) (painted (?ap + 1) ?F h) = painted (?ap + 2) ?F h"
    using store_painted [of "?ap + 1" ?F h] c1 by simp
  have p3: "store (?ap + 2) (rgb_u32 0 0 (drop_bit 3 b)) (painted (?ap + 2) ?F h) = painted (?ap + 3) ?F h"
    using store_painted [of "?ap + 2" ?F h] c2 by (simp add: eval_nat_numeral)
  have "3 * Suc n = ?ap + 3" by simp
  then show ?case
    unfolding for_loop_Suc Suc prod.case p1 p2 p3 by (simp add: add.commute)
qed

lemma fade_draw_painted: "fade_draw n r g b h = painted (3 * n) (fade_cell r g b) h"
  unfolding fade_draw_def fade_draw_loop by simp

lemma chase_draw_painted:
  "chase_draw n pos fg bg h = painted n (\<lambda>i. if i = size_t_of_int pos then fg else bg) h"
  unfolding chase_draw_def
proof (induction n)
  case 0
  show ?case by (simp add: for_loop_0 painted_0)
next
  case (Suc n)
  show ?case
    unfolding for_loop_Suc Suc
    by (auto simp: store_def painted_def fun_eq_iff)
qed

lemma walk_draw_painted:
  "for_loop 0 n (\<lambda>i m. store i (c (i mod 3)) m) h = painted n (\<lambda>i. c (i mod 3)) h"
proof (induction n)
  case 0
  show ?case by (simp add: for_loop_0 painted_0)
next
  case (Suc n)
  show ?case
    unfolding for_loop_Suc Suc
    using store_painted [of n "\<lambda>i. c (i mod 3)" h]
    by simp
qed

lemma led_array_write_eq: "led_array_write n h = map (\<lambda>i. push_bit 8 (cells h i)) [0..<n]"
proof -
  have "for_loop 0 n (\<lambda>idx (array, out). (array + 1, out @ [push_bit 8 (cells h array)])) (0, [])
          = (n, map (\<lambda>i. push_bit 8 (cells h i)) [0..<n])"
    by (induction n) (simp_all add: for_loop_0 for_loop_Suc)
  then show ?thesis by (simp add: led_array_write_def)
qed

section \<open>The footprint of a frame\<close>

text \<open>
  The offsets stored to by one frame of each routine. \<open>step_three\<close>, \<open>walk_three\<close> and
  \<open>chase_colour\<close> store to \<open>0..array_size-1\<close>; \<open>fade_three\<close> stores to
  \<open>0..3 * array_size - 1\<close>.
\<close>

lemma fade_frame_array:
  "f_array (fade_frame n sc st) = painted (3 * n) (fade_cell (red st) (grn st) (blu st)) (f_array st)"
  by (simp add: fade_frame_def Let_def fade_draw_painted)

lemma fade_frame_footprint:
  "set (written (f_array (fade_frame n sc st))) = {0..<3 * n} \<union> set (written (f_array st))"
  by (simp add: fade_frame_array painted_written)

lemma step_frame_footprint:
  "set (written (s_array (step_frame n st))) = {0..<n} \<union> set (written (s_array st))"
  by (simp add: step_frame_def Let_def led_array_set_painted painted_written)

lemma walk_frame_footprint:
  "set (written (w_array (walk_frame n st))) = {0..<n} \<union> set (written (w_array st))"
  by (simp add: walk_frame_def Let_def walk_draw_painted painted_written split: prod.splits)

lemma chase_frame_array:
  "c_array (chase_frame n bg st) =
     chase_draw n (clr_pos st) (fst (chase_colours (clr_id st) bg)) (snd (chase_colours (clr_id st) bg)) (c_array st)"
  by (simp add: chase_frame_def Let_def split: prod.splits)

lemma chase_frame_footprint:
  "set (written (c_array (chase_frame n bg st))) = {0..<n} \<union> set (written (c_array st))"
  by (simp add: chase_frame_array chase_draw_painted painted_written)

lemma chase_init_footprint:
  "set (written (c_array (chase_init n h))) = {0..<n} \<union> set (written h)"
  by (simp add: chase_init_def clear_leds_def led_array_set_painted painted_written)

text \<open>
  Claim C1 says that no routine stores outside \<open>0..N-1\<close>. The scheduler's mode 1 calls
  \<open>fade_three\<close> on the buffer of \<open>NUM_PIXELS = 100\<close> cells with \<open>array_size = 100\<close>; the
  render loop runs \<open>array_size\<close> times and stores three cells each time, so the first
  frame stores to the offsets \<open>0..299\<close>, two hundred of them behind the buffer.
\<close>

theorem fade_three_writes_past_buffer:
  "dispatch 1 = Some (Fade NUM_PIXELS 255 0 127 3000 1) \<and> NUM_PIXELS = 100 \<and>
   set (written (f_array (fade_frame NUM_PIXELS (fade_step_count 3000) (fade_init 255 0 127 1 blank_heap))))
     = {0..<300}"
  by (simp add: dispatch_def fade_frame_footprint NUM_PIXELS_def fade_init_def blank_heap_def)

section \<open>fade_three: what a frame draws\<close>

lemma drop_bit_3_le: "drop_bit 3 (v :: u8) \<le> 31"
proof -
  have "unat (drop_bit 3 v) = unat v div 8"
    by (simp add: drop_bit_eq_div unat_div)
  moreover have "unat v < 256" using unsigned_less [of v] by simp
  ultimately have "unat (drop_bit 3 v) \<le> 31" by simp
  then show ?thesis by (simp add: word_le_nat_alt)
qed

text \<open>
  Claim C2, as stated, fails: for a buffer of six cells and the scheduler's channel values
  \<open>(255, 0, 127)\<close> the frame holds red, green, blue, red, green, blue, while thirds would
  give red, red, green, green, blue, blue.
\<close>

theorem fade_thirds_counterexample:
  "map (cells (f_array (fade_frame 6 (fade_step_count 3000) (fade_init 255 0 127 1 blank_heap)))) [0, 1, 2, 3, 4, 5]
     = [0x1F0000, 0, 0x0F, 0x1F0000, 0, 0x0F] \<and>
   map (fade_thirds_spec 6 255 0 127) [0, 1, 2, 3, 4, 5] = [0x1F0000, 0x1F0000, 0, 0, 0x0F, 0x0F] \<and>
   cells (f_array (fade_frame 6 (fade_step_count 3000) (fade_init 255 0 127 1 blank_heap))) 1
     \<noteq> fade_thirds_spec 6 255 0 127 1"
  by (simp add: fade_frame_array painted_cells fade_cell_def fade_init_def fade_thirds_spec_def
        rgb_u32_def drop_bit_eq_div)

text \<open>
  Claim C2, amended: in every frame of the fade, for every buffer length, the cells are
  interleaved by their index modulo 3: a cell of the buffer whose index is 0 modulo 3
  holds the red channel only, 1 modulo 3 the green channel only, 2 modulo 3 the blue
  channel only, each scaled from the 8-bit value to \<open>0..31\<close> by a right shift of 3, the
  other two channels zero.
\<close>

theorem fade_frame_interleaved:
  assumes "i < n"
  shows "cells (f_array (fade_frame n sc st)) i =
           (if i mod 3 = 0 then rgb_u32 (drop_bit 3 (red st)) 0 0
            else if i mod 3 = 1 then rgb_u32 0 (drop_bit 3 (grn st)) 0
            else rgb_u32 0 0 (drop_bit 3 (blu st))) \<and>
         drop_bit 3 (red st) \<le> 31 \<and> drop_bit 3 (grn st) \<le> 31 \<and> drop_bit 3 (blu st) \<le> 31"
  using assms by (simp add: fade_frame_array painted_cells fade_cell_def drop_bit_3_le)

theorem fade_frame_interleaved_witness:
  "(5::nat) < 6 \<and> cells (f_array (fade_frame 6 250 (fade_init 255 0 127 1 blank_heap))) 5 = 0x0F"
  using fade_frame_interleaved [of 5 6 250 "fade_init 255 0 127 1 blank_heap"]
  by (simp add: fade_init_def rgb_u32_def drop_bit_eq_div)

section \<open>fade_three: how the channels move\<close>

lemma fade_frame_red: "(red (fade_frame n sc st), d_red (fade_frame n sc st)) = fade_channel (red st, d_red st)"
  by (simp add: fade_frame_def fade_channel_def Let_def)

lemma fade_frame_grn: "(grn (fade_frame n sc st), d_grn (fade_frame n sc st)) = fade_channel (grn st, d_grn st)"
  by (simp add: fade_frame_def fade_channel_def Let_def)

lemma fade_frame_blu: "(blu (fade_frame n sc st), d_blu (fade_frame n sc st)) = fade_channel (blu st, d_blu st)"
  by (simp add: fade_frame_def fade_channel_def Let_def)

lemma fade_frames_red:
  "(red ((fade_frame n sc ^^ k) st), d_red ((fade_frame n sc ^^ k) st)) = (fade_channel ^^ k) (red st, d_red st)"
  by (induction k) (simp_all add: fade_frame_red)

lemma fade_frames_grn:
  "(grn ((fade_frame n sc ^^ k) st), d_grn ((fade_frame n sc ^^ k) st)) = (fade_channel ^^ k) (grn st, d_grn st)"
  by (induction k) (simp_all add: fade_frame_grn)

lemma fade_frames_blu:
  "(blu ((fade_frame n sc ^^ k) st), d_blu ((fade_frame n sc ^^ k) st)) = (fade_channel ^^ k) (blu st, d_blu st)"
  by (induction k) (simp_all add: fade_frame_blu)

lemma u8_of_nat_eq_iff: "a < 256 \<Longrightarrow> b < 256 \<Longrightarrow> (of_nat a :: u8) = of_nat b \<longleftrightarrow> a = b"
  by (simp add: word_of_nat_eq_iff take_bit_nat_eq_self)

lemma u8_of_nat_255: "a < 256 \<Longrightarrow> (of_nat a :: u8) = 255 \<longleftrightarrow> a = 255"
  using u8_of_nat_eq_iff [of a 255] by simp

lemma u8_of_nat_0: "a < 256 \<Longrightarrow> (of_nat a :: u8) = 0 \<longleftrightarrow> a = 0"
  using u8_of_nat_eq_iff [of a 0] by simp

lemma fade_channel_down:
  assumes "s \<le> a" and "a \<le> 255"
  shows "fade_channel (of_nat a, - int s) =
           (of_nat (a - s), if a - s = 255 then - 1 else if a - s = 0 then 1 else - int s)"
proof -
  have "(of_nat a :: u8) + word_of_int (- int s) = of_nat (a - s)"
    using assms(1) by simp
  moreover have "a - s < 256" using assms by simp
  ultimately show ?thesis
    by (simp add: fade_channel_def u8_of_nat_255 u8_of_nat_0 del: of_nat_diff)
qed

lemma fade_channel_up:
  assumes "a + s \<le> 255"
  shows "fade_channel (of_nat a, int s) =
           (of_nat (a + s), if a + s = 255 then - 1 else if a + s = 0 then 1 else int s)"
proof -
  have "(of_nat a :: u8) + word_of_int (int s) = of_nat (a + s)"
    by simp
  moreover have "a + s < 256" using assms by simp
  ultimately show ?thesis
    by (simp add: fade_channel_def u8_of_nat_255 u8_of_nat_0 del: of_nat_add)
qed

lemma fade_ramp_down:
  assumes "j * s \<le> a" and "a \<le> 255" and "0 < s"
  shows "(fade_channel ^^ j) (of_nat a, - int s) =
           (of_nat (a - j * s), if 0 < j \<and> a = j * s then 1 else - int s)"
  using assms(1)
proof (induction j)
  case 0
  show ?case by simp
next
  case (Suc j)
  define x where "x = a - j * s"
  define y where "y = a - Suc j * s"
  from Suc.prems have le: "j * s + s \<le> a" by simp
  then have xy: "y = x - s" "s \<le> x" "x \<le> 255" "y \<noteq> 255"
    using assms(2,3) by (simp_all add: x_def y_def)
  have y0: "y = 0 \<longleftrightarrow> a = Suc j * s"
    using le by (auto simp: y_def)
  from le assms(3) have "a \<noteq> j * s" and "j * s \<le> a" by simp_all
  then have "(fade_channel ^^ j) (of_nat a, - int s) = (of_nat x, - int s)"
    using Suc.IH by (simp add: x_def)
  then have "(fade_channel ^^ Suc j) (of_nat a, - int s) = fade_channel (of_nat x, - int s)"
    by simp
  also have "\<dots> = (of_nat y, if y = 255 then - 1 else if y = 0 then 1 else - int s)"
    unfolding xy(1) using xy(2,3) by (rule fade_channel_down)
  also have "\<dots> = (of_nat y, if a = Suc j * s then 1 else - int s)"
    using xy(4) y0 by simp
  finally show ?case by (simp add: y_def)
qed

lemma fade_ramp_up:
  assumes "a + j * s \<le> 255" and "0 < s"
  shows "(fade_channel ^^ j) (of_nat a, int s) =
           (of_nat (a + j * s), if 0 < j \<and> a + j * s = 255 then - 1 else int s)"
  using assms(1)
proof (induction j)
  case 0
  show ?case by simp
next
  case (Suc j)
  define x where "x = a + j * s"
  define y where "y = a + Suc j * s"
  from Suc.prems have xy: "y = x + s" "x + s \<le> 255" "x \<noteq> 255" "y \<noteq> 0"
    using assms(2) by (simp_all add: x_def y_def)
  then have "x \<le> 255" by simp
  then have "(fade_channel ^^ j) (of_nat a, int s) = (of_nat x, int s)"
    using Suc.IH xy(3) by (simp add: x_def)
  then have "(fade_channel ^^ Suc j) (of_nat a, int s) = fade_channel (of_nat x, int s)"
    by simp
  also have "\<dots> = (of_nat y, if y = 255 then - 1 else if y = 0 then 1 else int s)"
    unfolding xy(1) using xy(2) by (rule fade_channel_up)
  also have "\<dots> = (of_nat y, if y = 255 then - 1 else int s)"
    using xy(4) by simp
  finally show ?case by (simp add: y_def)
qed

lemma fade_down_255: "(fade_channel ^^ 255) (255, - 1) = (0, 1)"
  using fade_ramp_down [of 255 1 255] by simp

lemma fade_up_255: "(fade_channel ^^ 255) (0, 1) = (255, - 1)"
  using fade_ramp_up [of 0 255 1] by simp

lemma fade_cycle_from_255: "(fade_channel ^^ 510) (255, - 1) = (255, - 1)"
proof -
  have "(fade_channel ^^ (255 + 255)) (255, - 1) = (fade_channel ^^ 255) ((fade_channel ^^ 255) (255, - 1))"
    by (simp only: funpow_add o_apply)
  then show ?thesis by (simp add: fade_down_255 fade_up_255)
qed

lemma fade_cycle_from_0: "(fade_channel ^^ 510) (0, 1) = (0, 1)"
proof -
  have "(fade_channel ^^ (255 + 255)) (0, 1) = (fade_channel ^^ 255) ((fade_channel ^^ 255) (0, 1))"
    by (simp only: funpow_add o_apply)
  then show ?thesis by (simp add: fade_down_255 fade_up_255)
qed

lemma fade_cycle_from_127: "(fade_channel ^^ 510) (127, 1) = (127, 1)"
proof -
  have a: "(fade_channel ^^ 128) (127, 1) = (255, - 1)"
    using fade_ramp_up [of 127 128 1] by simp
  have b: "(fade_channel ^^ 127) (0, 1) = (127, 1)"
    using fade_ramp_up [of 0 127 1] by simp
  have "(fade_channel ^^ (127 + (255 + 128))) (127, 1) =
        (fade_channel ^^ 127) ((fade_channel ^^ 255) ((fade_channel ^^ 128) (127, 1)))"
    by (simp only: funpow_add o_apply)
  then show ?thesis by (simp add: a b fade_down_255)
qed

lemma fade_two_after_127: "(fade_channel ^^ 127) (255, - 2) = (1, - 2)"
  using fade_ramp_down [of 127 2 255] by simp

lemma fade_two_after_128: "(fade_channel ^^ 128) (255, - 2) = (255, - 1)"
proof -
  have "(fade_channel ^^ Suc 127) (255, - 2) = fade_channel ((fade_channel ^^ 127) (255, - 2))"
    by (simp only: funpow.simps o_apply)
  then show ?thesis by (simp add: fade_two_after_127 fade_channel_def)
qed

text \<open>
  With step 1 the channels reflect: from the directions \<open>fade_three\<close> starts with, every
  frame moves red by exactly one in its direction, without wrapping, and the direction
  stays a unit step. (Green and blue run through the same three lines of the source.)
\<close>

lemma fade_channel_up_one:
  assumes "v \<noteq> 255"
  shows "fade_channel (v, 1) = (v + 1, if v + 1 = 255 then - 1 else 1)" and "uint (v + 1) = uint v + 1"
proof -
  have m: "(255 :: u8) = - 1" by simp
  from assms have nz: "v + 1 \<noteq> 0" unfolding m by (metis eq_neg_iff_add_eq_0)
  then show "fade_channel (v, 1) = (v + 1, if v + 1 = 255 then - 1 else 1)"
    by (simp add: fade_channel_def Let_def)
  from nz have "1 + v \<noteq> 0" by (simp add: add.commute)
  then have "unat (1 + v) = Suc (unat v)" by (rule unatSuc)
  then have "int (unat (v + 1)) = int (unat v) + 1" by (simp add: add.commute)
  then show "uint (v + 1) = uint v + 1" by simp
qed

lemma fade_channel_down_one:
  assumes "v \<noteq> 0"
  shows "fade_channel (v, - 1) = (v - 1, if v - 1 = 0 then 1 else - 1)" and "uint (v - 1) = uint v - 1"
proof -
  have m: "(255 :: u8) = - 1" by simp
  from assms have "v - 1 \<noteq> - 1" by simp
  then show "fade_channel (v, - 1) = (v - 1, if v - 1 = 0 then 1 else - 1)"
    by (simp add: fade_channel_def Let_def)
  from assms have "unat (v - 1) = unat v - 1" by (simp add: unat_minus_one)
  moreover from assms have "0 < unat v" by (simp add: unat_gt_0)
  ultimately have "int (unat (v - 1)) = int (unat v) - 1" by (simp add: of_nat_diff)
  then show "uint (v - 1) = uint v - 1" by simp
qed

lemma fade_channel_unit:
  assumes "inward (v, d)"
  shows "uint (fst (fade_channel (v, d))) = uint v + d \<and> inward (fade_channel (v, d))"
proof -
  from assms consider (up) "d = 1" "v \<noteq> 255" | (down) "d = - 1" "v \<noteq> 0"
    by (auto simp: inward_def)
  then show ?thesis
  proof cases
    case up
    have m: "(255 :: u8) = - 1" by simp
    from up(2) have "v + 1 \<noteq> 0" unfolding m by (metis eq_neg_iff_add_eq_0)
    then show ?thesis
      using fade_channel_up_one [OF up(2)] by (simp add: inward_def up(1))
  next
    case down
    have "(255 :: u8) = - 1" by simp
    with down(2) have "v - 1 \<noteq> 255" by (simp only: diff_eq_eq) simp
    then show ?thesis
      using fade_channel_down_one [OF down(2)] by (simp add: inward_def down(1))
  qed
qed

lemma fade_channel_inward_iter: "inward p \<Longrightarrow> inward ((fade_channel ^^ k) p)"
proof (induction k)
  case 0
  then show ?case by simp
next
  case (Suc k)
  then have "inward ((fade_channel ^^ k) p)" by simp
  then have "inward (fade_channel (fst ((fade_channel ^^ k) p), snd ((fade_channel ^^ k) p)))"
    using fade_channel_unit [of "fst ((fade_channel ^^ k) p)" "snd ((fade_channel ^^ k) p)"] by simp
  then show ?case by simp
qed

lemma inward_init: "inward (v, if v > 127 then - 1 else 1)"
proof -
  have "\<not> (0 :: u8) > 127" and "(255 :: u8) > 127" by simp_all
  then show ?thesis by (auto simp: inward_def)
qed

lemma fade_step_one_reflects:
  "uint (red (fade_frame n sc ((fade_frame n sc ^^ k) (fade_init r g b 1 h)))) =
     uint (red ((fade_frame n sc ^^ k) (fade_init r g b 1 h))) +
     d_red ((fade_frame n sc ^^ k) (fade_init r g b 1 h)) \<and>
   (d_red ((fade_frame n sc ^^ k) (fade_init r g b 1 h)) = 1 \<or>
    d_red ((fade_frame n sc ^^ k) (fade_init r g b 1 h)) = - 1)"
proof -
  let ?s = "fade_init r g b 1 h"
  let ?t = "(fade_frame n sc ^^ k) ?s"
  have "inward (red ?s, d_red ?s)"
    using inward_init [of r] by (simp add: fade_init_def)
  then have "inward ((fade_channel ^^ k) (red ?s, d_red ?s))"
    by (rule fade_channel_inward_iter)
  then have i: "inward (red ?t, d_red ?t)"
    by (simp only: fade_frames_red)
  then have "uint (fst (fade_channel (red ?t, d_red ?t))) = uint (red ?t) + d_red ?t"
    using fade_channel_unit by blast
  moreover have "fst (fade_channel (red ?t, d_red ?t)) = red (fade_frame n sc ?t)"
    using fade_frame_red [of n sc ?t] by (metis fst_conv)
  ultimately show ?thesis using i by (simp add: inward_def)
qed

text \<open>
  The trajectory of a channel under step 1 is a triangle wave of period \<open>2 * 255\<close>: from
  \<open>(0, up)\<close> it climbs to 255 in 255 frames and descends to 0 in the next 255. Red starts
  at the top of the wave and blue 127 frames into the climb.
\<close>

lemma fade_trajectory_from_0:
  "(fade_channel ^^ k) (0, 1) =
     (of_nat (if k mod 510 \<le> 255 then k mod 510 else 510 - k mod 510),
      if k mod 510 < 255 then 1 else - 1)"
proof (induction k)
  case 0
  show ?case by simp
next
  case (Suc k)
  define r where "r = k mod 510"
  have r: "r < 510" by (simp add: r_def)
  have IH: "(fade_channel ^^ k) (0, 1) =
      (of_nat (if r \<le> 255 then r else 510 - r), if r < 255 then 1 else - 1)"
    using Suc.IH by (simp add: r_def)
  have S: "(fade_channel ^^ Suc k) (0, 1) = fade_channel ((fade_channel ^^ k) (0, 1))"
    by simp
  consider (up) "r < 255" | (down) "255 \<le> r" "r < 509" | (turn) "r = 509"
    using r by linarith
  then show ?case
  proof cases
    case up
    then have m: "Suc k mod 510 = Suc r" by (simp add: r_def mod_Suc)
    have "fade_channel (of_nat r, int 1) =
        (of_nat (r + 1), if r + 1 = 255 then - 1 else if r + 1 = 0 then 1 else int 1)"
      using up by (intro fade_channel_up) simp
    then show ?thesis
      unfolding S IH m using up by auto
  next
    case down
    then have m: "Suc k mod 510 = Suc r" by (simp add: r_def mod_Suc)
    have "fade_channel (of_nat (510 - r), - int 1) =
        (of_nat (510 - r - 1),
         if 510 - r - 1 = 255 then - 1 else if 510 - r - 1 = 0 then 1 else - int 1)"
      using down by (intro fade_channel_down) simp_all
    moreover have "(if r \<le> 255 then r else 510 - r) = 510 - r" using down by auto
    moreover have "510 - r - 1 = 510 - Suc r" by simp
    ultimately show ?thesis
      unfolding S IH m using down by auto
  next
    case turn
    then have m: "Suc k mod 510 = 0" by (simp add: r_def mod_Suc)
    have "fade_channel (of_nat 1, - int 1) =
        (of_nat (1 - 1), if 1 - 1 = (255::nat) then - 1 else if 1 - 1 = (0::nat) then 1 else - int 1)"
      by (intro fade_channel_down) simp_all
    then show ?thesis
      unfolding S IH m using turn by simp
  qed
qed

lemma fade_up_127: "(fade_channel ^^ 127) (0, 1) = (127, 1)"
  using fade_ramp_up [of 0 127 1] by simp

lemma fade_trajectory_shift:
  "(fade_channel ^^ j) (0, 1) = p \<Longrightarrow> (fade_channel ^^ k) p = (fade_channel ^^ (k + j)) (0, 1)"
  by (simp add: funpow_add)

lemma fade_trajectory_from_255:
  "(fade_channel ^^ k) (255, - 1) =
     (of_nat (if k mod 510 \<le> 255 then 255 - k mod 510 else k mod 510 - 255),
      if k mod 510 < 255 then - 1 else 1)"
proof -
  define r where "r = k mod 510"
  have r: "r < 510" by (simp add: r_def)
  have "(k + 255) mod 510 = (r + 255) mod 510" by (simp add: r_def mod_simps)
  also have "\<dots> = (if r < 255 then r + 255 else r - 255)"
    using r by (auto simp: mod_if)
  finally have m: "(k + 255) mod 510 = (if r < 255 then r + 255 else r - 255)" .
  have "(fade_channel ^^ k) (255, - 1) = (fade_channel ^^ (k + 255)) (0, 1)"
    using fade_up_255 by (rule fade_trajectory_shift)
  also have "\<dots> = (of_nat (if r \<le> 255 then 255 - r else r - 255), if r < 255 then - 1 else 1)"
    unfolding fade_trajectory_from_0 m using r by auto
  finally show ?thesis by (simp add: r_def)
qed

lemma fade_trajectory_from_127:
  "(fade_channel ^^ k) (127, 1) =
     (of_nat (if (k + 127) mod 510 \<le> 255 then (k + 127) mod 510 else 510 - (k + 127) mod 510),
      if (k + 127) mod 510 < 255 then 1 else - 1)"
proof -
  have "(fade_channel ^^ k) (127, 1) = (fade_channel ^^ (k + 127)) (0, 1)"
    using fade_up_127 by (rule fade_trajectory_shift)
  then show ?thesis by (simp only: fade_trajectory_from_0)
qed

lemma fade_mode1_channels:
  "(red ((fade_frame n sc ^^ k) (fade_init 255 0 127 1 h)),
    d_red ((fade_frame n sc ^^ k) (fade_init 255 0 127 1 h))) = (fade_channel ^^ k) (255, - 1)"
  "(grn ((fade_frame n sc ^^ k) (fade_init 255 0 127 1 h)),
    d_grn ((fade_frame n sc ^^ k) (fade_init 255 0 127 1 h))) = (fade_channel ^^ k) (0, 1)"
  "(blu ((fade_frame n sc ^^ k) (fade_init 255 0 127 1 h)),
    d_blu ((fade_frame n sc ^^ k) (fade_init 255 0 127 1 h))) = (fade_channel ^^ k) (127, 1)"
  by (simp_all add: fade_frames_red fade_frames_grn fade_frames_blu fade_init_def)

lemma fade_mode1_trajectory:
  "red ((fade_frame n sc ^^ k) (fade_init 255 0 127 1 h)) =
     of_nat (if k mod 510 \<le> 255 then 255 - k mod 510 else k mod 510 - 255)"
  "d_red ((fade_frame n sc ^^ k) (fade_init 255 0 127 1 h)) = (if k mod 510 < 255 then - 1 else 1)"
  "grn ((fade_frame n sc ^^ k) (fade_init 255 0 127 1 h)) =
     of_nat (if k mod 510 \<le> 255 then k mod 510 else 510 - k mod 510)"
  "d_grn ((fade_frame n sc ^^ k) (fade_init 255 0 127 1 h)) = (if k mod 510 < 255 then 1 else - 1)"
  "blu ((fade_frame n sc ^^ k) (fade_init 255 0 127 1 h)) =
     of_nat (if (k + 127) mod 510 \<le> 255 then (k + 127) mod 510 else 510 - (k + 127) mod 510)"
  "d_blu ((fade_frame n sc ^^ k) (fade_init 255 0 127 1 h)) =
     (if (k + 127) mod 510 < 255 then 1 else - 1)"
proof -
  note r = fade_mode1_channels(1) [where n = n and sc = sc and k = k and h = h, unfolded fade_trajectory_from_255]
  note g = fade_mode1_channels(2) [where n = n and sc = sc and k = k and h = h, unfolded fade_trajectory_from_0]
  note b = fade_mode1_channels(3) [where n = n and sc = sc and k = k and h = h, unfolded fade_trajectory_from_127]
  from r show "red ((fade_frame n sc ^^ k) (fade_init 255 0 127 1 h)) =
     of_nat (if k mod 510 \<le> 255 then 255 - k mod 510 else k mod 510 - 255)"
    by (rule Pair_inject)
  from r show "d_red ((fade_frame n sc ^^ k) (fade_init 255 0 127 1 h)) = (if k mod 510 < 255 then - 1 else 1)"
    by (rule Pair_inject)
  from g show "grn ((fade_frame n sc ^^ k) (fade_init 255 0 127 1 h)) =
     of_nat (if k mod 510 \<le> 255 then k mod 510 else 510 - k mod 510)"
    by (rule Pair_inject)
  from g show "d_grn ((fade_frame n sc ^^ k) (fade_init 255 0 127 1 h)) = (if k mod 510 < 255 then 1 else - 1)"
    by (rule Pair_inject)
  from b show "blu ((fade_frame n sc ^^ k) (fade_init 255 0 127 1 h)) =
     of_nat (if (k + 127) mod 510 \<le> 255 then (k + 127) mod 510 else 510 - (k + 127) mod 510)"
    by (rule Pair_inject)
  from b show "d_blu ((fade_frame n sc ^^ k) (fade_init 255 0 127 1 h)) =
     (if (k + 127) mod 510 < 255 then 1 else - 1)"
    by (rule Pair_inject)
qed

lemma fade_mode1_red_top:
  "red ((fade_frame n sc ^^ k) (fade_init 255 0 127 1 h)) = 255 \<longleftrightarrow> k mod 510 = 0"
proof -
  define x where "x = (if k mod 510 \<le> 255 then 255 - k mod 510 else k mod 510 - 255)"
  have "k mod 510 < 510" by simp
  then have "x < 256" and "x = 255 \<longleftrightarrow> k mod 510 = 0" by (auto simp: x_def)
  then show ?thesis
    unfolding fade_mode1_trajectory(1) x_def [symmetric] by (simp add: u8_of_nat_255)
qed

lemma fade_mode1_grn_bottom:
  "grn ((fade_frame n sc ^^ k) (fade_init 255 0 127 1 h)) = 0 \<longleftrightarrow> k mod 510 = 0"
proof -
  define x where "x = (if k mod 510 \<le> 255 then k mod 510 else 510 - k mod 510)"
  have "k mod 510 < 510" by simp
  then have "x < 256" and "x = 0 \<longleftrightarrow> k mod 510 = 0" by (auto simp: x_def)
  then show ?thesis
    unfolding fade_mode1_trajectory(3) x_def [symmetric] by (simp add: u8_of_nat_0)
qed

text \<open>
  Claim C10. In the scheduler's mode 1, \<open>fade_three\<close> starts from the channel values
  \<open>(255, 0, 127)\<close> with step 1. After \<open>2 * 255\<close> frames each channel holds its starting
  value again, and each direction is the starting direction. These \<open>2 * 255\<close> frames are one
  full reflect cycle: after \<open>k\<close> frames red is at \<open>255 - k\<close> on the way down and at
  \<open>k - 255\<close> on the way back up (\<open>k\<close> taken modulo 510), green mirrors it, and blue runs
  the same wave 127 frames ahead of green; red is at 0 and green at 255 after 255 frames,
  blue is at 255 after 128 frames and at 0 after 383; and red is back at 255, green back
  at 0, at the multiples of 510 only. This holds for every buffer length, step count and
  memory.
\<close>

theorem fade_round_trip:
  "dispatch 1 = Some (Fade NUM_PIXELS 255 0 127 3000 1) \<and>
   red ((fade_frame n sc ^^ (2 * 255)) (fade_init 255 0 127 1 h)) = 255 \<and>
   grn ((fade_frame n sc ^^ (2 * 255)) (fade_init 255 0 127 1 h)) = 0 \<and>
   blu ((fade_frame n sc ^^ (2 * 255)) (fade_init 255 0 127 1 h)) = 127 \<and>
   d_red ((fade_frame n sc ^^ (2 * 255)) (fade_init 255 0 127 1 h)) = d_red (fade_init 255 0 127 1 h) \<and>
   d_grn ((fade_frame n sc ^^ (2 * 255)) (fade_init 255 0 127 1 h)) = d_grn (fade_init 255 0 127 1 h) \<and>
   d_blu ((fade_frame n sc ^^ (2 * 255)) (fade_init 255 0 127 1 h)) = d_blu (fade_init 255 0 127 1 h) \<and>
   red ((fade_frame n sc ^^ k) (fade_init 255 0 127 1 h)) =
     of_nat (if k mod 510 \<le> 255 then 255 - k mod 510 else k mod 510 - 255) \<and>
   grn ((fade_frame n sc ^^ k) (fade_init 255 0 127 1 h)) =
     of_nat (if k mod 510 \<le> 255 then k mod 510 else 510 - k mod 510) \<and>
   blu ((fade_frame n sc ^^ k) (fade_init 255 0 127 1 h)) =
     of_nat (if (k + 127) mod 510 \<le> 255 then (k + 127) mod 510 else 510 - (k + 127) mod 510) \<and>
   d_red ((fade_frame n sc ^^ k) (fade_init 255 0 127 1 h)) = (if k mod 510 < 255 then - 1 else 1) \<and>
   d_grn ((fade_frame n sc ^^ k) (fade_init 255 0 127 1 h)) = (if k mod 510 < 255 then 1 else - 1) \<and>
   d_blu ((fade_frame n sc ^^ k) (fade_init 255 0 127 1 h)) =
     (if (k + 127) mod 510 < 255 then 1 else - 1) \<and>
   red ((fade_frame n sc ^^ 255) (fade_init 255 0 127 1 h)) = 0 \<and>
   grn ((fade_frame n sc ^^ 255) (fade_init 255 0 127 1 h)) = 255 \<and>
   blu ((fade_frame n sc ^^ 128) (fade_init 255 0 127 1 h)) = 255 \<and>
   blu ((fade_frame n sc ^^ 383) (fade_init 255 0 127 1 h)) = 0 \<and>
   (red ((fade_frame n sc ^^ k) (fade_init 255 0 127 1 h)) = 255 \<longleftrightarrow> k mod 510 = 0) \<and>
   (grn ((fade_frame n sc ^^ k) (fade_init 255 0 127 1 h)) = 0 \<longleftrightarrow> k mod 510 = 0)"
proof -
  have d: "dispatch 1 = Some (Fade NUM_PIXELS 255 0 127 3000 1)" by (simp add: dispatch_def)
  have i: "d_red (fade_init 255 0 127 1 h) = - 1" "d_grn (fade_init 255 0 127 1 h) = 1"
    "d_blu (fade_init 255 0 127 1 h) = 1"
    by (simp_all add: fade_init_def)
  have full: "red ((fade_frame n sc ^^ 510) (fade_init 255 0 127 1 h)) = 255"
    "grn ((fade_frame n sc ^^ 510) (fade_init 255 0 127 1 h)) = 0"
    "blu ((fade_frame n sc ^^ 510) (fade_init 255 0 127 1 h)) = 127"
    "d_red ((fade_frame n sc ^^ 510) (fade_init 255 0 127 1 h)) = - 1"
    "d_grn ((fade_frame n sc ^^ 510) (fade_init 255 0 127 1 h)) = 1"
    "d_blu ((fade_frame n sc ^^ 510) (fade_init 255 0 127 1 h)) = 1"
    by (simp_all add: fade_mode1_trajectory)
  have way: "red ((fade_frame n sc ^^ 255) (fade_init 255 0 127 1 h)) = 0"
    "grn ((fade_frame n sc ^^ 255) (fade_init 255 0 127 1 h)) = 255"
    "blu ((fade_frame n sc ^^ 128) (fade_init 255 0 127 1 h)) = 255"
    "blu ((fade_frame n sc ^^ 383) (fade_init 255 0 127 1 h)) = 0"
    by (simp_all add: fade_mode1_trajectory)
  note t = fade_mode1_trajectory [where n = n and sc = sc and k = k and h = h]
  note p = fade_mode1_red_top [where n = n and sc = sc and k = k and h = h]
    fade_mode1_grn_bottom [where n = n and sc = sc and k = k and h = h]
  have two: "2 * 255 = (510::nat)" by simp
  show ?thesis
    unfolding two i
    by (intro conjI d full way t p)
qed

theorem fade_round_trip_witness:
  "red ((fade_frame 100 250 ^^ 100) (fade_init 255 0 127 1 blank_heap)) = 155 \<and>
   grn ((fade_frame 100 250 ^^ 100) (fade_init 255 0 127 1 blank_heap)) = 100 \<and>
   blu ((fade_frame 100 250 ^^ 100) (fade_init 255 0 127 1 blank_heap)) = 227 \<and>
   red ((fade_frame 100 250 ^^ 300) (fade_init 255 0 127 1 blank_heap)) = 45 \<and>
   d_red ((fade_frame 100 250 ^^ 300) (fade_init 255 0 127 1 blank_heap)) = 1 \<and>
   red ((fade_frame 100 250 ^^ 255) (fade_init 255 0 127 1 blank_heap)) = 0 \<and>
   red ((fade_frame 100 250 ^^ (2 * 255)) (fade_init 255 0 127 1 blank_heap)) = 255"
  using fade_round_trip [where n = 100 and sc = 250 and h = blank_heap and k = 100]
    fade_round_trip [where n = 100 and sc = 250 and h = blank_heap and k = 300]
  by simp

text \<open>
  Claim C5 says that a channel moves by \<open>step_size\<close> in every frame and reflects at 0 and
  255 without wrapping. In the scheduler's mode 3 (step 2, red starting at 255) red is 1
  with direction \<open>-2\<close> after 127 frames; the next frame stores \<open>1 - 2\<close> into eight bits,
  which is 255, and the test for 255 then sets the direction to \<open>-1\<close>: the value has
  wrapped modulo 256 and the step is 1 from there on.
\<close>

theorem fade_step_two_wraps:
  "dispatch 3 = Some (Fade NUM_PIXELS 255 0 127 3000 2) \<and>
   red ((fade_frame NUM_PIXELS (fade_step_count 3000) ^^ 127) (fade_init 255 0 127 2 blank_heap)) = 1 \<and>
   d_red ((fade_frame NUM_PIXELS (fade_step_count 3000) ^^ 127) (fade_init 255 0 127 2 blank_heap)) = - 2 \<and>
   red ((fade_frame NUM_PIXELS (fade_step_count 3000) ^^ 128) (fade_init 255 0 127 2 blank_heap)) = 255 \<and>
   d_red ((fade_frame NUM_PIXELS (fade_step_count 3000) ^^ 128) (fade_init 255 0 127 2 blank_heap)) = - 1"
proof -
  let ?f = "fade_frame NUM_PIXELS (fade_step_count 3000)" and ?s = "fade_init 255 0 127 2 blank_heap"
  have "(red ((?f ^^ 127) ?s), d_red ((?f ^^ 127) ?s)) = (fade_channel ^^ 127) (red ?s, d_red ?s)"
    by (rule fade_frames_red)
  then have a: "(red ((?f ^^ 127) ?s), d_red ((?f ^^ 127) ?s)) = (1, - 2)"
    by (simp add: fade_init_def fade_two_after_127)
  have "(red ((?f ^^ 128) ?s), d_red ((?f ^^ 128) ?s)) = (fade_channel ^^ 128) (red ?s, d_red ?s)"
    by (rule fade_frames_red)
  then have b: "(red ((?f ^^ 128) ?s), d_red ((?f ^^ 128) ?s)) = (255, - 1)"
    by (simp add: fade_init_def fade_two_after_128)
  have d: "dispatch 3 = Some (Fade NUM_PIXELS 255 0 127 3000 2)" by (simp add: dispatch_def)
  from a b d show ?thesis by simp
qed

section \<open>step_three\<close>

lemma step_frame_array:
  assumes "clr_index st = int p" and "p < 3"
  shows "s_array (step_frame n st) = led_array_set n (step_colour p (clr_value st)) (s_array st)"
proof -
  have "p = 0 \<or> p = 1 \<or> p = 2" using assms(2) by arith
  then show ?thesis
    using assms(1) by (auto simp: step_frame_def step_colour_def Let_def)
qed

lemma step_frame_counters:
  assumes "clr_index st = int p" and "p < 3" and "clr_value st = of_nat v" and "v < 255"
  shows "clr_value (step_frame n st) = (if Suc v = 255 then 0 else of_nat (Suc v))"
    and "clr_index (step_frame n st) = (if Suc v = 255 then int (Suc p mod 3) else int p)"
proof -
  have "(of_nat v :: u8) + 1 = of_nat (Suc v)" by simp
  moreover have "(of_nat (Suc v) :: u8) = 255 \<longleftrightarrow> Suc v = 255"
    using assms(4) by (intro u8_of_nat_255) simp
  moreover have "p = 0 \<or> p = 1 \<or> p = 2" using assms(2) by arith
  ultimately show "clr_value (step_frame n st) = (if Suc v = 255 then 0 else of_nat (Suc v))"
    and "clr_index (step_frame n st) = (if Suc v = 255 then int (Suc p mod 3) else int p)"
    using assms(1,3) by (auto simp: step_frame_def Let_def simp del: of_nat_Suc)
qed

lemma step_closed_form:
  "clr_value ((step_frame n ^^ k) (step_init h)) = of_nat (k mod 255) \<and>
   clr_index ((step_frame n ^^ k) (step_init h)) = int ((k div 255) mod 3)"
proof (induction k)
  case 0
  show ?case by (simp add: step_init_def)
next
  case (Suc k)
  let ?st = "(step_frame n ^^ k) (step_init h)"
  have S: "(step_frame n ^^ Suc k) (step_init h) = step_frame n ?st" by simp
  have i: "clr_index ?st = int ((k div 255) mod 3)" and v: "clr_value ?st = of_nat (k mod 255)"
    using Suc.IH by simp_all
  note f = step_frame_counters [OF i _ v, of n]
  show ?case
  proof (cases "Suc (k mod 255) = 255")
    case True
    then have "Suc k mod 255 = 0" and "Suc k div 255 = Suc (k div 255)"
      by (simp_all add: mod_Suc div_Suc)
    then show ?thesis
      unfolding S using f True by (simp add: mod_Suc_eq)
  next
    case False
    then have "Suc k mod 255 = Suc (k mod 255)" and "Suc k div 255 = k div 255"
      by (simp_all add: mod_Suc div_Suc)
    then show ?thesis
      unfolding S using f False by simp
  qed
qed

text \<open>
  Claim C6, as stated, lets the ramp reach 255. In the source the value is reset as soon as
  the increment gives 255: frame 254 shows 254 in phase 0 and frame 255 shows 0 in phase 1.
\<close>

theorem step_ramp_counterexample:
  "clr_value ((step_frame 1 ^^ 254) (step_init blank_heap)) = 254 \<and>
   clr_index ((step_frame 1 ^^ 254) (step_init blank_heap)) = 0 \<and>
   clr_value ((step_frame 1 ^^ 255) (step_init blank_heap)) = 0 \<and>
   clr_value ((step_frame 1 ^^ 255) (step_init blank_heap)) \<noteq> 255 \<and>
   clr_index ((step_frame 1 ^^ 255) (step_init blank_heap)) = 1"
  using step_closed_form [where n = 1 and k = 254 and h = blank_heap]
    step_closed_form [where n = 1 and k = 255 and h = blank_heap]
  by (simp del: funpow.simps)

text \<open>
  Claim C6, amended: the three phases red only, green only, blue only repeat cyclically;
  frame \<open>k\<close> belongs to phase \<open>(k div 255) mod 3\<close> and fills every cell of the buffer with
  the single active channel at the value \<open>k mod 255\<close> (shifted right by 3). The value
  ramps from 0 up to 254 in unit increments, is never 255, and the phase advances exactly
  when it returns to 0.
\<close>

theorem step_three_ramp:
  assumes "i < n"
  shows "clr_value ((step_frame n ^^ k) (step_init h)) = of_nat (k mod 255) \<and>
         clr_value ((step_frame n ^^ k) (step_init h)) \<noteq> 255 \<and>
         clr_index ((step_frame n ^^ k) (step_init h)) = int ((k div 255) mod 3) \<and>
         cells (s_array ((step_frame n ^^ Suc k) (step_init h))) i =
           (if (k div 255) mod 3 = 0 then rgb_u32 (drop_bit 3 (of_nat (k mod 255))) 0 0
            else if (k div 255) mod 3 = 1 then rgb_u32 0 (drop_bit 3 (of_nat (k mod 255))) 0
            else rgb_u32 0 0 (drop_bit 3 (of_nat (k mod 255))))"
proof -
  let ?st = "(step_frame n ^^ k) (step_init h)"
  note cf = step_closed_form [where n = n and k = k and h = h]
  have v: "clr_value ?st = of_nat (k mod 255)" and x: "clr_index ?st = int ((k div 255) mod 3)"
    using cf by simp_all
  have "k mod 255 < 256" by (rule less_trans [of _ 255]) simp_all
  then have "(of_nat (k mod 255) :: u8) = 255 \<longleftrightarrow> k mod 255 = 255" by (rule u8_of_nat_255)
  then have ne: "clr_value ?st \<noteq> 255" unfolding v by simp
  have "s_array (step_frame n ?st) = led_array_set n (step_colour ((k div 255) mod 3) (clr_value ?st)) (s_array ?st)"
    using x by (rule step_frame_array) simp
  then have "cells (s_array (step_frame n ?st)) i = step_colour ((k div 255) mod 3) (of_nat (k mod 255))"
    using assms by (simp add: led_array_set_painted painted_cells v)
  then have c: "cells (s_array ((step_frame n ^^ Suc k) (step_init h))) i =
      step_colour ((k div 255) mod 3) (of_nat (k mod 255))"
    by simp
  show ?thesis
    unfolding c using v ne x by (simp add: step_colour_def)
qed

theorem step_three_ramp_witness:
  "(2::nat) < 4 \<and> clr_value ((step_frame 4 ^^ 300) (step_init blank_heap)) = 45 \<and>
   clr_index ((step_frame 4 ^^ 300) (step_init blank_heap)) = 1 \<and>
   cells (s_array ((step_frame 4 ^^ Suc 300) (step_init blank_heap))) 2 = 0x0500"
  using step_three_ramp [where i = 2 and n = 4 and k = 300 and h = blank_heap]
  by (simp add: rgb_u32_def drop_bit_eq_div del: funpow.simps)

section \<open>chase_colour\<close>

lemma size_t_of_int_nat: "n < 2 ^ 32 \<Longrightarrow> size_t_of_int (int n) = n"
  by (simp add: size_t_of_int_def nat_mod_distrib flip: of_nat_power)

lemma chase_frame_cells:
  "cells (c_array (chase_frame n bg st)) i =
     (if i < n then (if i = size_t_of_int (clr_pos st) then fst (chase_colours (clr_id st) bg)
                     else snd (chase_colours (clr_id st) bg))
      else cells (c_array st) i)"
  by (simp add: chase_frame_array chase_draw_painted painted_cells)

lemma chase_frame_up:
  assumes "clr_dir st = 1" and "clr_pos st = int p" and "p < n" and "n \<le> INT_MAX"
  shows "clr_pos (chase_frame n bg st) = (if Suc p = n then int p else int (Suc p))"
    and "clr_dir (chase_frame n bg st) = (if Suc p = n then - 1 else 1)"
    and "clr_id (chase_frame n bg st) = clr_id st"
proof -
  have "Suc p < 2 ^ 32" using assms(3,4) by (simp add: INT_MAX_def)
  then have "size_t_of_int (int (Suc p)) = Suc p" by (rule size_t_of_int_nat)
  then have eq: "size_t_of_int (int p + 1) = Suc p" by (simp add: add.commute)
  show "clr_pos (chase_frame n bg st) = (if Suc p = n then int p else int (Suc p))"
    and "clr_dir (chase_frame n bg st) = (if Suc p = n then - 1 else 1)"
    and "clr_id (chase_frame n bg st) = clr_id st"
    using assms(1,2) by (simp_all add: chase_frame_def Let_def eq split: prod.splits)
qed

lemma chase_frame_down:
  assumes "clr_dir st = - 1" and "clr_pos st = int p"
  shows "clr_pos (chase_frame n bg st) = int (p - 1)"
    and "clr_dir (chase_frame n bg st) = (if p = 0 then 1 else - 1)"
    and "clr_id (chase_frame n bg st) = (if p = 0 then chase_next_id (clr_id st) else clr_id st)"
  using assms by (simp_all add: chase_frame_def Let_def of_nat_diff split: prod.splits)

lemma chase_closed_form:
  assumes "1 \<le> n" and "n \<le> INT_MAX"
  shows "clr_pos ((chase_frame n bg ^^ k) (chase_init n h)) = int (chase_pos_at n k) \<and>
         clr_dir ((chase_frame n bg ^^ k) (chase_init n h)) = chase_dir_at n k \<and>
         clr_id ((chase_frame n bg ^^ k) (chase_init n h)) = (chase_next_id ^^ (k div (2 * n))) CHR ''r''"
proof (induction k)
  case 0
  from assms(1) show ?case by (simp add: chase_init_def chase_pos_at_def chase_dir_at_def)
next
  case (Suc k)
  let ?st = "(chase_frame n bg ^^ k) (chase_init n h)"
  define r where "r = k mod (2 * n)"
  have r: "r < 2 * n" using assms(1) by (simp add: r_def)
  have pos: "clr_pos ?st = int (if r < n then r else 2 * n - 1 - r)"
    and dir: "clr_dir ?st = (if r < n then 1 else - 1)"
    and cid: "clr_id ?st = (chase_next_id ^^ (k div (2 * n))) CHR ''r''"
    using Suc.IH by (simp_all add: chase_pos_at_def chase_dir_at_def r_def Let_def)
  have S: "(chase_frame n bg ^^ Suc k) (chase_init n h) = chase_frame n bg ?st" by simp
  consider (up) "r < n" | (down) "n \<le> r" "Suc r < 2 * n" | (turn) "Suc r = 2 * n"
    using r by linarith
  then show ?case
  proof cases
    case up
    then have m: "Suc k mod (2 * n) = Suc r" and d: "Suc k div (2 * n) = k div (2 * n)"
      by (simp_all add: r_def mod_Suc div_Suc)
    have d1: "clr_dir ?st = 1" and p1: "clr_pos ?st = int r" using up pos dir by simp_all
    note f = chase_frame_up [OF d1 p1 up assms(2), of bg]
    show ?thesis
      unfolding S using up f cid
      by (auto simp: chase_pos_at_def chase_dir_at_def m d Let_def)
  next
    case down
    then have m: "Suc k mod (2 * n) = Suc r" and d: "Suc k div (2 * n) = k div (2 * n)"
      by (simp_all add: r_def mod_Suc div_Suc)
    have d1: "clr_dir ?st = - 1" and p1: "clr_pos ?st = int (2 * n - 1 - r)"
      using down pos dir by simp_all
    note f = chase_frame_down [OF d1 p1, of n bg]
    have "2 * n - 1 - r \<noteq> 0" using down by simp
    then show ?thesis
      unfolding S using down f cid
      by (auto simp: chase_pos_at_def chase_dir_at_def m d Let_def)
  next
    case turn
    then have m: "Suc k mod (2 * n) = 0" and d: "Suc k div (2 * n) = Suc (k div (2 * n))"
      by (simp_all add: r_def mod_Suc div_Suc)
    have nr: "\<not> r < n" using turn assms(1) by simp
    have d1: "clr_dir ?st = - 1" and p1: "clr_pos ?st = int (2 * n - 1 - r)"
      using nr pos dir by simp_all
    note f = chase_frame_down [OF d1 p1, of n bg]
    have "2 * n - 1 - r = 0" using turn by simp
    then show ?thesis
      unfolding S using assms(1) f cid
      by (auto simp: chase_pos_at_def chase_dir_at_def m d Let_def)
  qed
qed

lemma chase_pos_at_less: "1 \<le> n \<Longrightarrow> chase_pos_at n k < n"
proof -
  assume "1 \<le> n"
  then have "k mod (2 * n) < 2 * n" by simp
  then show ?thesis by (auto simp: chase_pos_at_def Let_def)
qed

lemma chase_next_id_cycle:
  "(chase_next_id ^^ q) CHR ''r'' = [CHR ''r'', CHR ''g'', CHR ''b''] ! (q mod 3)"
proof (induction q)
  case 0
  show ?case by simp
next
  case (Suc q)
  have "q mod 3 = 0 \<or> q mod 3 = 1 \<or> q mod 3 = 2" by arith
  then show ?case
    using Suc by (auto simp: mod_Suc chase_next_id_def)
qed

text \<open>
  Claim C9. For every buffer length \<open>n\<close> from 1 up to \<open>INT_MAX\<close> (the lengths for which
  \<open>clr_pos + 1\<close> is defined in C) and every number \<open>k\<close> of frames, the position lies in
  \<open>0..n-1\<close>; it runs from 0 up to \<open>n-1\<close> and back to 0 in \<open>2 * n\<close> frames; the colour is
  the one reached from red after one advance for each completed round trip; and the
  frame stores the foreground colour at the position.
\<close>

theorem chase_position_in_range:
  assumes "1 \<le> n" and "n \<le> INT_MAX"
  shows "0 \<le> clr_pos ((chase_frame n bg ^^ k) (chase_init n h)) \<and>
         clr_pos ((chase_frame n bg ^^ k) (chase_init n h)) < int n \<and>
         clr_pos ((chase_frame n bg ^^ k) (chase_init n h)) =
           int (if k mod (2 * n) < n then k mod (2 * n) else 2 * n - 1 - k mod (2 * n)) \<and>
         clr_id ((chase_frame n bg ^^ k) (chase_init n h)) =
           [CHR ''r'', CHR ''g'', CHR ''b''] ! ((k div (2 * n)) mod 3) \<and>
         cells (c_array ((chase_frame n bg ^^ Suc k) (chase_init n h)))
               (nat (clr_pos ((chase_frame n bg ^^ k) (chase_init n h)))) =
           fst (chase_colours (clr_id ((chase_frame n bg ^^ k) (chase_init n h))) bg)"
proof -
  let ?st = "(chase_frame n bg ^^ k) (chase_init n h)"
  note cf = chase_closed_form [OF assms, where bg = bg and k = k and h = h]
  have lt: "chase_pos_at n k < n" using assms(1) by (rule chase_pos_at_less)
  have p: "clr_pos ?st = int (chase_pos_at n k)" using cf by simp
  have c: "clr_id ?st = [CHR ''r'', CHR ''g'', CHR ''b''] ! ((k div (2 * n)) mod 3)"
    using cf by (simp add: chase_next_id_cycle)
  have "chase_pos_at n k < 2 ^ 32" using lt assms(2) by (simp add: INT_MAX_def)
  then have sz: "size_t_of_int (clr_pos ?st) = chase_pos_at n k"
    unfolding p by (rule size_t_of_int_nat)
  have "cells (c_array (chase_frame n bg ?st)) (chase_pos_at n k) = fst (chase_colours (clr_id ?st) bg)"
    using lt by (simp add: chase_frame_cells sz)
  then have l: "cells (c_array ((chase_frame n bg ^^ Suc k) (chase_init n h))) (nat (clr_pos ?st)) =
      fst (chase_colours (clr_id ?st) bg)"
    by (simp add: p)
  have f: "int (chase_pos_at n k) = int (if k mod (2 * n) < n then k mod (2 * n) else 2 * n - 1 - k mod (2 * n))"
    by (simp add: chase_pos_at_def Let_def)
  from lt p c l f show ?thesis by simp
qed

theorem chase_position_in_range_witness:
  "(1::nat) \<le> 6 \<and> 6 \<le> INT_MAX \<and>
   clr_pos ((chase_frame 6 True ^^ 19) (chase_init 6 blank_heap)) = 4 \<and>
   clr_id ((chase_frame 6 True ^^ 19) (chase_init 6 blank_heap)) = CHR ''g''"
  using chase_position_in_range [where n = 6 and bg = True and k = 19 and h = blank_heap]
  by (simp add: INT_MAX_def)

text \<open>
  Claim C3, as stated, puts the lit position at 4 in frame 6. In the source the turn at the
  end only reverses the direction and steps back onto the last cell, so frame 6 shows
  position 5 again.
\<close>

theorem chase_frame_six_counterexample:
  "clr_pos ((chase_frame 6 False ^^ 6) (chase_init 6 blank_heap)) = 5 \<and>
   clr_pos ((chase_frame 6 False ^^ 6) (chase_init 6 blank_heap)) \<noteq> 4"
  using chase_closed_form [where n = 6 and bg = False and k = 6 and h = blank_heap]
  by (simp add: INT_MAX_def chase_pos_at_def)

text \<open>
  Claim C3, amended: for a buffer of length 6 and background off, starting red at position
  0, the lit position over frames 0..5 is 0, 1, 2, 3, 4, 5 with the direction still
  upwards at frame 5; at frame 6 the direction has reversed and the lit position is
  still 5 (cell 5 holds the red foreground, every other cell is black); at frame 7 it
  is 4.
\<close>

theorem chase_six_scenario:
  "clr_pos ((chase_frame 6 False ^^ 0) (chase_init 6 h)) = 0 \<and>
   clr_pos ((chase_frame 6 False ^^ 1) (chase_init 6 h)) = 1 \<and>
   clr_pos ((chase_frame 6 False ^^ 2) (chase_init 6 h)) = 2 \<and>
   clr_pos ((chase_frame 6 False ^^ 3) (chase_init 6 h)) = 3 \<and>
   clr_pos ((chase_frame 6 False ^^ 4) (chase_init 6 h)) = 4 \<and>
   clr_pos ((chase_frame 6 False ^^ 5) (chase_init 6 h)) = 5 \<and>
   clr_dir ((chase_frame 6 False ^^ 5) (chase_init 6 h)) = 1 \<and>
   clr_pos ((chase_frame 6 False ^^ 6) (chase_init 6 h)) = 5 \<and>
   clr_dir ((chase_frame 6 False ^^ 6) (chase_init 6 h)) = - 1 \<and>
   clr_pos ((chase_frame 6 False ^^ 7) (chase_init 6 h)) = 4 \<and>
   clr_id ((chase_frame 6 False ^^ 6) (chase_init 6 h)) = CHR ''r'' \<and>
   map (cells (c_array ((chase_frame 6 False ^^ Suc 6) (chase_init 6 h)))) [0, 1, 2, 3, 4, 5]
     = [0, 0, 0, 0, 0, 0x0F0000]"
proof -
  have n: "(1::nat) \<le> 6" "(6::nat) \<le> INT_MAX" by (simp_all add: INT_MAX_def)
  note cf = chase_closed_form [OF n, where bg = False and h = h]
  have p: "clr_pos ((chase_frame 6 False ^^ 0) (chase_init 6 h)) = 0"
    "clr_pos ((chase_frame 6 False ^^ 1) (chase_init 6 h)) = 1"
    "clr_pos ((chase_frame 6 False ^^ 2) (chase_init 6 h)) = 2"
    "clr_pos ((chase_frame 6 False ^^ 3) (chase_init 6 h)) = 3"
    "clr_pos ((chase_frame 6 False ^^ 4) (chase_init 6 h)) = 4"
    "clr_pos ((chase_frame 6 False ^^ 5) (chase_init 6 h)) = 5"
    "clr_pos ((chase_frame 6 False ^^ 6) (chase_init 6 h)) = 5"
    "clr_pos ((chase_frame 6 False ^^ 7) (chase_init 6 h)) = 4"
    using cf [where k = 0] cf [where k = 1] cf [where k = 2] cf [where k = 3] cf [where k = 4] cf [where k = 5] cf [where k = 6] cf [where k = 7]
    by (simp_all add: chase_pos_at_def del: funpow.simps)
  have d: "clr_dir ((chase_frame 6 False ^^ 5) (chase_init 6 h)) = 1"
    "clr_dir ((chase_frame 6 False ^^ 6) (chase_init 6 h)) = - 1"
    "clr_id ((chase_frame 6 False ^^ 6) (chase_init 6 h)) = CHR ''r''"
    using cf [where k = 5] cf [where k = 6] by (simp_all add: chase_dir_at_def del: funpow.simps)
  have "size_t_of_int 5 = 5" using size_t_of_int_nat [of 5] by simp
  then have m: "map (cells (c_array (chase_frame 6 False ((chase_frame 6 False ^^ 6) (chase_init 6 h))))) [0, 1, 2, 3, 4, 5]
     = [0, 0, 0, 0, 0, 0x0F0000]"
    by (simp add: chase_frame_cells p(7) d(3) chase_colours_def del: funpow.simps)
  have "(chase_frame 6 False ^^ Suc 6) (chase_init 6 h) =
      chase_frame 6 False ((chase_frame 6 False ^^ 6) (chase_init 6 h))"
    by (simp only: funpow.simps o_apply)
  with m have m': "map (cells (c_array ((chase_frame 6 False ^^ Suc 6) (chase_init 6 h)))) [0, 1, 2, 3, 4, 5]
     = [0, 0, 0, 0, 0, 0x0F0000]"
    by (simp only:)
  from p d m' show ?thesis by (simp del: funpow.simps)
qed

end
